theory Spec2Isabelle
  imports Complex_Main "HOL-Library.Word"
begin

section \<open>Common types\<close>

text \<open>
  A Go function either returns or panics (a failed type assertion, a nil pointer
  dereference). The panic is a value of its own, so that no branch of the source is lost.
\<close>

datatype 'a outcome = Panics | Returns 'a

text \<open>
  A Go result pair \<open>(v, err)\<close> with \<open>err\<close> of type \<open>error\<close>: the error is \<open>None\<close> for
  \<open>nil\<close>. Errors are carried by their message.
\<close>

type_synonym error = string

section \<open>Start: two readiness waits on one timeout budget\<close>

text \<open>
  \<open>time.Duration\<close> is an \<open>int64\<close> count of nanoseconds: a 64-bit word read with \<open>sint\<close>,
  on which \<open>+\<close>, \<open>-\<close> and \<open>*\<close> wrap around as Go's do.
\<close>

type_synonym duration = "64 word"

definition Millisecond :: duration where
  "Millisecond = 1000000"

text \<open>
  \<open>client.Addr\<close> and \<open>client.Socks5Addr\<close> return \<open>(interface{}, bool)\<close>. The value is
  either a string or something else, on which the type assertion \<open>.(string)\<close> panics.
  The pair is an \<open>option\<close>: \<open>None\<close> when \<open>ok\<close> is false.
\<close>

datatype iface = IString string | IOther

record StartResult =
  HTTPAddr :: string
  SOCKS5Addr :: string

text \<open>
  What \<open>Start\<close> does to the outside, in the order it does it: the calls to
  \<open>appdir.SetHomeDir\<close>, the launch of \<open>run\<close> on its own goroutine by \<open>startOnce.Do\<close>,
  and the two waits, each with the duration it was given.
\<close>

datatype start_event =
    SetHomeDir string
  | LaunchRun string string
  | AddrWait duration
  | Socks5AddrWait duration

text \<open>
  The collaborators of one call: what each wait answers for the duration it is asked
  with, and the reading \<open>time.Now().Sub(start)\<close> taken between the two waits.
\<close>

record start_env =
  client_Addr :: "duration \<Rightarrow> iface option"
  client_Socks5Addr :: "duration \<Rightarrow> iface option"
  elapsed :: duration

text \<open>
  \<open>Start\<close> (lantern.go, lines 110 to 130). \<open>once\<close> is the state of \<open>startOnce\<close> before the
  call (true when \<open>run\<close> has been launched already); the first component of the result
  is its state after the call. \<open>timeoutMillis\<close> is the value of the Go \<open>int\<close>;
  \<open>time.Duration(timeoutMillis)\<close> converts it to \<open>int64\<close>.
\<close>

definition Start ::
  "start_env \<Rightarrow> bool \<Rightarrow> string \<Rightarrow> string \<Rightarrow> int \<Rightarrow>
     bool \<times> start_event list \<times> (StartResult option \<times> error option) outcome" where
  "Start env once configDir locale timeoutMillis =
     (let launch = SetHomeDir configDir # (if once then [] else [LaunchRun configDir locale]);
          budget = word_of_int timeoutMillis * Millisecond
      in case client_Addr env budget of
           None \<Rightarrow>
             (True, launch @ [AddrWait budget],
              Returns (None, Some ''HTTP Proxy didn't start within given timeout''))
         | Some addr \<Rightarrow>
             (let rest = word_of_int timeoutMillis * Millisecond - elapsed env
              in case client_Socks5Addr env rest of
                   None \<Rightarrow>
                     (True, launch @ [AddrWait budget, Socks5AddrWait rest],
                      Returns (None, Some ''SOCKS5 Proxy didn't start within given timeout''))
                 | Some socksAddr \<Rightarrow>
                     (True, launch @ [AddrWait budget, Socks5AddrWait rest],
                      (case addr of
                         IString a \<Rightarrow>
                           (case socksAddr of
                              IString s \<Rightarrow>
                                Returns (Some \<lparr>HTTPAddr = a, SOCKS5Addr = s\<rparr>, None)
                            | IOther \<Rightarrow> Panics)
                       | IOther \<Rightarrow> Panics))))"

definition is_socks_wait :: "start_event \<Rightarrow> bool" where
  "is_socks_wait e = (case e of Socks5AddrWait d \<Rightarrow> True | _ \<Rightarrow> False)"

definition start_events ::
  "bool \<times> start_event list \<times> (StartResult option \<times> error option) outcome \<Rightarrow>
     start_event list" where
  "start_events r = fst (snd r)"

definition start_result ::
  "bool \<times> start_event list \<times> (StartResult option \<times> error option) outcome \<Rightarrow>
     (StartResult option \<times> error option) outcome" where
  "start_result r = snd (snd r)"

text \<open>Concrete collaborators for the examples below.\<close>

definition env_ready :: start_env where
  "env_ready =
     \<lparr>client_Addr = (\<lambda>d. Some (IString ''127.0.0.1:8787'')),
      client_Socks5Addr = (\<lambda>d. Some (IString ''127.0.0.1:8788'')),
      elapsed = 100\<rparr>"

definition env_http_late :: start_env where
  "env_http_late =
     \<lparr>client_Addr = (\<lambda>d. None),
      client_Socks5Addr = (\<lambda>d. Some (IString ''127.0.0.1:8788'')),
      elapsed = 1000000000\<rparr>"

definition env_socks_late :: start_env where
  "env_socks_late =
     \<lparr>client_Addr = (\<lambda>d. Some (IString ''127.0.0.1:8787'')),
      client_Socks5Addr = (\<lambda>d. None),
      elapsed = 400000000\<rparr>"

section \<open>run: the background initialization\<close>

text \<open>
  The errors \<open>os.MkdirAll\<close> can return, by the errno they wrap. \<open>os.IsExist\<close> holds of
  the errors that report that a file or directory already exists (\<open>EEXIST\<close> and
  \<open>ENOTEMPTY\<close>), and of no other error; it is false of \<open>nil\<close>.
\<close>

datatype os_error = EEXIST | ENOTEMPTY | EACCES | ENOTDIR | EROFS | ENOSPC | EIO

definition os_IsExist :: "os_error option \<Rightarrow> bool" where
  "os_IsExist err = (err = Some EEXIST \<or> err = Some ENOTEMPTY)"

text \<open>
  \<open>strconv.ParseBool\<close>: the accepted spellings, anything else is an error (\<open>None\<close>).
\<close>

definition strconv_ParseBool :: "string \<Rightarrow> bool option" where
  "strconv_ParseBool str =
     (if str \<in> set [''1'', ''t'', ''T'', ''TRUE'', ''true'', ''True''] then Some True
      else if str \<in> set [''0'', ''f'', ''F'', ''FALSE'', ''false'', ''False''] then Some False
      else None)"

text \<open>
  What \<open>run\<close> does, in order: its calls to the file system, to the logging package and
  to the proxy engine, and the lines it logs.
\<close>

datatype run_event =
    MkdirAll string
  | LogUnableToCreateConfigDir string "os_error option"
  | EnableFileLogging string
  | LogUnableToEnableFileLogging error
  | LogWritingLogMessages string
  | LogErrorParsingFlag
  | FlashlightRun string

record run_env =
  os_MkdirAll :: "string \<Rightarrow> os_error option"
  logging_EnableFileLogging :: "string \<Rightarrow> error option"
  stagingMode :: string

text \<open>
  \<open>run\<close> (lantern.go, lines 149 to 192). The first \<open>return\<close> is taken when
  \<open>os.IsExist(err)\<close> holds, the second when file logging cannot be enabled; otherwise
  the proxy engine is entered. The \<open>flags\<close> map is written and never read.
\<close>

definition run :: "run_env \<Rightarrow> string \<Rightarrow> string \<Rightarrow> run_event list" where
  "run env configDir locale =
     (let err = os_MkdirAll env configDir
      in if os_IsExist err then
           [MkdirAll configDir, LogUnableToCreateConfigDir configDir err]
         else
           (case logging_EnableFileLogging env configDir of
              Some err2 \<Rightarrow>
                [MkdirAll configDir, EnableFileLogging configDir,
                 LogUnableToEnableFileLogging err2]
            | None \<Rightarrow>
                [MkdirAll configDir, EnableFileLogging configDir,
                 LogWritingLogMessages configDir] @
                (case strconv_ParseBool (stagingMode env) of
                   Some staging \<Rightarrow> []
                 | None \<Rightarrow> [LogErrorParsingFlag]) @
                [FlashlightRun configDir]))"

definition env_mkdir :: "os_error option \<Rightarrow> run_env" where
  "env_mkdir err =
     \<lparr>os_MkdirAll = (\<lambda>dir. err),
      logging_EnableFileLogging = (\<lambda>dir. None),
      stagingMode = ''false''\<rparr>"

section \<open>Survey lookup: extractUrl and surveyRequest\<close>

record SurveyInfo =
  Enabled :: bool
  Campaign :: string
  Url :: string
  Message :: string
  Thanks :: string
  Button :: string

text \<open>
  \<open>json.RawMessage\<close> is a byte slice. In a \<open>map[string]*json.RawMessage\<close> a key is
  missing (\<open>None\<close>), or maps to a nil pointer (\<open>Some None\<close>, what the decoder stores for
  a JSON \<open>null\<close>), or maps to the raw bytes of its value.
\<close>

type_synonym raw_message = string

type_synonym raw_map = "string \<rightharpoonup> raw_message option"

definition defaultLocale :: string where
  "defaultLocale = ''en-US''"

text \<open>
  \<open>extractUrl\<close> (lantern.go, lines 236 to 253). \<open>dec\<close> is \<open>json.Unmarshal\<close> into a
  \<open>SurveyInfo\<close>. Dereferencing a nil entry panics. The log lines do not change what is
  returned and are left out.
\<close>

function extractUrl ::
  "(raw_message \<Rightarrow> error + SurveyInfo) \<Rightarrow> raw_map \<Rightarrow> string \<Rightarrow>
     (string \<times> error option) outcome" where
  "extractUrl dec surveys locale =
     (case surveys locale of
        Some val \<Rightarrow>
          (case val of
             None \<Rightarrow> Panics
           | Some raw \<Rightarrow>
               (case dec raw of
                  Inl err \<Rightarrow> Returns ('''', Some err)
                | Inr survey \<Rightarrow> Returns (Url survey, None)))
      | None \<Rightarrow>
          if locale \<noteq> defaultLocale then extractUrl dec surveys defaultLocale
          else Returns ('''', None))"
  by pat_completeness auto
termination
  by (relation "measure (\<lambda>(dec, surveys, locale). if locale = defaultLocale then 0 else 1)")
    auto

declare extractUrl.simps [simp del]

text \<open>
  The same function with its call depth bounded: every call, the first one included,
  uses up one unit of \<open>fuel\<close>, and \<open>None\<close> means that the bound was reached before a
  \<open>return\<close>.
\<close>

fun extractUrl_fuel ::
  "nat \<Rightarrow> (raw_message \<Rightarrow> error + SurveyInfo) \<Rightarrow> raw_map \<Rightarrow> string \<Rightarrow>
     (string \<times> error option) outcome option" where
  "extractUrl_fuel 0 dec surveys locale = None"
| "extractUrl_fuel (Suc fuel) dec surveys locale =
     (case surveys locale of
        Some val \<Rightarrow>
          (case val of
             None \<Rightarrow> Some Panics
           | Some raw \<Rightarrow>
               (case dec raw of
                  Inl err \<Rightarrow> Some (Returns ('''', Some err))
                | Inr survey \<Rightarrow> Some (Returns (Url survey, None))))
      | None \<Rightarrow>
          if locale \<noteq> defaultLocale then extractUrl_fuel fuel dec surveys defaultLocale
          else Some (Returns ('''', None)))"




text \<open>
  A small decoder and documents for the examples: the raw message \<open>A\<close> decodes to a
  survey with a URL, anything else is malformed.
\<close>

definition survey_A :: SurveyInfo where
  "survey_A =
     \<lparr>Enabled = True, Campaign = ''c1'', Url = ''https://example.org/survey'',
      Message = ''m'', Thanks = ''t'', Button = ''b''\<rparr>"

definition dec_example :: "raw_message \<Rightarrow> error + SurveyInfo" where
  "dec_example raw = (if raw = ''A'' then Inr survey_A else Inl ''unexpected end of JSON input'')"



section \<open>float64 arithmetic\<close>

text \<open>
  The percentage is computed in \<open>float64\<close>. A finite \<open>float64\<close> is modelled by the real
  number it stands for; the operations compute the exact result and round it to the
  nearest value with a 53-bit significand, ties to even, as IEEE 754 binary64 does.
  The sign of zero is not kept: a zero met here comes from the conversion of the
  integer 0, which is positive.
\<close>

datatype float64 = Finite real | PInf | NInf | NaN

text \<open>\<open>ilog2 n\<close> is the position of the highest set bit of \<open>n\<close>, and 0 for \<open>n = 0\<close>.\<close>

fun ilog2 :: "nat \<Rightarrow> nat" where
  "ilog2 n = (if n < 2 then 0 else Suc (ilog2 (n div 2)))"

declare ilog2.simps [simp del]

text \<open>\<open>clog2 n\<close> is the least \<open>k\<close> with \<open>n \<le> 2 ^ k\<close>.\<close>

definition clog2 :: "nat \<Rightarrow> nat" where
  "clog2 n = (if n \<le> 1 then 0 else Suc (ilog2 (n - 1)))"

text \<open>The binary exponent of a positive real: \<open>2 powi expo x \<le> x < 2 powi (expo x + 1)\<close>.\<close>

definition expo :: "real \<Rightarrow> int" where
  "expo x =
     (if 1 \<le> x then int (ilog2 (nat \<lfloor>x\<rfloor>)) else - int (clog2 (nat \<lceil>1 / x\<rceil>)))"

text \<open>Rounding to the nearest integer, a tie to the even neighbour.\<close>

definition round_even :: "real \<Rightarrow> int" where
  "round_even y =
     (let f = \<lfloor>y\<rfloor>; r = y - of_int f
      in if r < 1 / 2 then f
         else if 1 / 2 < r then f + 1
         else if even f then f else f + 1)"

text \<open>
  Rounding a real to \<open>float64\<close>: the unit in the last place is \<open>2 powi (e - 52)\<close> for a
  number with binary exponent \<open>e\<close>, and \<open>2 powi (- 1074)\<close> below the normal range; a
  result of magnitude \<open>2 powi 1024\<close> or more is an infinity.
\<close>

definition round64 :: "real \<Rightarrow> float64" where
  "round64 x =
     (if x = 0 then Finite 0
      else
        (let a = \<bar>x\<bar>;
             e = max (expo a) (- 1022) - 52;
             r = of_int (round_even (a / 2 powi e)) * 2 powi e
         in if 2 powi 1024 \<le> r then (if 0 < x then PInf else NInf)
            else Finite (sgn x * r)))"

text \<open>\<open>float64(n)\<close> for an \<open>int64\<close>.\<close>

definition float64_of_int64 :: "64 word \<Rightarrow> float64" where
  "float64_of_int64 n = round64 (of_int (sint n))"

text \<open>Division and multiplication, with the IEEE 754 results for infinities and NaN.\<close>

fun f64_div :: "float64 \<Rightarrow> float64 \<Rightarrow> float64" where
  "f64_div (Finite x) (Finite y) =
     (if y = 0 then (if x = 0 then NaN else if 0 < x then PInf else NInf)
      else round64 (x / y))"
| "f64_div (Finite x) PInf = Finite 0"
| "f64_div (Finite x) NInf = Finite 0"
| "f64_div PInf (Finite y) = (if 0 \<le> y then PInf else NInf)"
| "f64_div NInf (Finite y) = (if 0 \<le> y then NInf else PInf)"
| "f64_div x y = NaN"

fun f64_mul :: "float64 \<Rightarrow> float64 \<Rightarrow> float64" where
  "f64_mul (Finite x) (Finite y) = round64 (x * y)"
| "f64_mul (Finite x) PInf = (if x = 0 then NaN else if 0 < x then PInf else NInf)"
| "f64_mul (Finite x) NInf = (if x = 0 then NaN else if 0 < x then NInf else PInf)"
| "f64_mul PInf (Finite y) = (if y = 0 then NaN else if 0 < y then PInf else NInf)"
| "f64_mul NInf (Finite y) = (if y = 0 then NaN else if 0 < y then NInf else PInf)"
| "f64_mul PInf PInf = PInf"
| "f64_mul PInf NInf = NInf"
| "f64_mul NInf PInf = NInf"
| "f64_mul NInf NInf = PInf"
| "f64_mul x y = NaN"

text \<open>
  \<open>int(f)\<close> for a \<open>float64\<close>, with \<open>int\<close> of 64 bits: the fraction is discarded
  (truncation towards zero). When the value does not fit, or is not finite, the result
  is implementation-dependent (Go specification, Conversions): it is what the
  parameter \<open>impl\<close> says.
\<close>

definition trunc_zero :: "real \<Rightarrow> int" where
  "trunc_zero x = (if 0 \<le> x then \<lfloor>x\<rfloor> else \<lceil>x\<rceil>)"

definition int_of_float64 :: "(float64 \<Rightarrow> 64 word) \<Rightarrow> float64 \<Rightarrow> 64 word" where
  "int_of_float64 impl f =
     (case f of
        Finite x \<Rightarrow>
          (if - (2 ^ 63) \<le> trunc_zero x \<and> trunc_zero x < 2 ^ 63 then word_of_int (trunc_zero x)
           else impl f)
      | _ \<Rightarrow> impl f)"

text \<open>What amd64 gives for a value that does not fit: the smallest \<open>int64\<close>.\<close>

definition indefinite :: "float64 \<Rightarrow> 64 word" where
  "indefinite f = 2 ^ 63"

section \<open>bandwidthUpdates: from quota samples to bandwidth signals\<close>

text \<open>
  Modelled from the spec: the declaration of \<open>bandwidth.Quota\<close> is not in the source;
  the spec gives its two fields the type \<open>int64\<close>, which the comparison
  \<open>allowed < 0\<close> of the source agrees with.
\<close>

record Quota =
  MiBAllowed :: "64 word"
  MiBUsed :: "64 word"

text \<open>
  The body of the loop of \<open>bandwidthUpdates\<close> (lantern.go, lines 198 to 217) for one
  sample read from the channel: \<open>None\<close> for a nil sample. The result is \<open>None\<close> when the
  loop goes on to the next sample without a call, and else the arguments
  \<open>(percent, remaining)\<close> of the call to \<open>user.BandwidthUpdate\<close>. Both are of type
  \<open>int\<close>, taken as 64 bits wide, so that \<open>int(MiBAllowed - MiBUsed)\<close> is the \<open>int64\<close>
  difference (which wraps around) unchanged.
\<close>

definition quota_signal ::
  "(float64 \<Rightarrow> 64 word) \<Rightarrow> Quota option \<Rightarrow> (64 word \<times> 64 word) option" where
  "quota_signal impl quota =
     (case quota of
        None \<Rightarrow> None
      | Some q \<Rightarrow>
          (let allowed = MiBAllowed q
           in if sint allowed < 0 \<or> 50000000 < sint allowed then None
              else if sint (MiBAllowed q) \<le> sint (MiBUsed q) then Some (100, 0)
              else
                Some
                  (int_of_float64 impl
                     (f64_mul (Finite 100)
                        (f64_div (float64_of_int64 (MiBUsed q))
                           (float64_of_int64 (MiBAllowed q)))),
                   MiBAllowed q - MiBUsed q)))"

text \<open>The loop: the calls to \<open>user.BandwidthUpdate\<close>, in the order of the samples.\<close>

fun bandwidthUpdates ::
  "(float64 \<Rightarrow> 64 word) \<Rightarrow> Quota option list \<Rightarrow> (64 word \<times> 64 word) list" where
  "bandwidthUpdates impl [] = []"
| "bandwidthUpdates impl (quota # rest) =
     (case quota_signal impl quota of
        None \<Rightarrow> bandwidthUpdates impl rest
      | Some signal \<Rightarrow> signal # bandwidthUpdates impl rest)"

section \<open>Properties of Start\<close>

lemma sint_diff_nonneg:
  fixes a b :: duration
  assumes "0 \<le> sint a" and "0 \<le> sint b"
  shows "sint (a - b) = sint a - sint b"
proof -
  have a: "sint a < 2 ^ 63" using sint_lt [of a] by simp
  have b: "sint b < 2 ^ 63" using sint_lt [of b] by simp
  have "sint (a - b) = signed_take_bit 63 (sint a - sint b)"
    by (simp add: sint_word_ariths)
  also have "\<dots> = sint a - sint b"
    using assms a b by (intro signed_take_bit_int_eq_self) auto
  finally show ?thesis .
qed




text \<open>
  C2: a \<open>StartResult\<close> is returned only when both waits answered (and then with no
  error); when the HTTP wait fails the result is nil with an error and no SOCKS wait is
  made; when the SOCKS wait fails the result is nil with an error.
\<close>

theorem Start_no_partial_result:
  "(start_result (Start env once d l t) = Returns (Some r, e) \<longrightarrow>
      (\<exists>a s. client_Addr env (word_of_int t * Millisecond) = Some (IString a)
           \<and> client_Socks5Addr env (word_of_int t * Millisecond - elapsed env)
               = Some (IString s)
           \<and> r = \<lparr>HTTPAddr = a, SOCKS5Addr = s\<rparr> \<and> e = None))
   \<and> (client_Addr env (word_of_int t * Millisecond) = None \<longrightarrow>
        (\<exists>msg. start_result (Start env once d l t) = Returns (None, Some msg))
        \<and> \<not> list_ex is_socks_wait (start_events (Start env once d l t)))
   \<and> (client_Addr env (word_of_int t * Millisecond) \<noteq> None
        \<and> client_Socks5Addr env (word_of_int t * Millisecond - elapsed env) = None \<longrightarrow>
        (\<exists>msg. start_result (Start env once d l t) = Returns (None, Some msg)))"
  by (auto simp add: Start_def start_result_def start_events_def is_socks_wait_def Let_def
      split: option.splits iface.splits)

theorem Start_no_partial_result_witness:
  "start_result (Start env_ready False ''/data'' ''en_US'' 1000) =
     Returns (Some \<lparr>HTTPAddr = ''127.0.0.1:8787'', SOCKS5Addr = ''127.0.0.1:8788''\<rparr>, None)
   \<and> client_Addr env_http_late (word_of_int 1000 * Millisecond) = None
   \<and> (\<exists>msg. start_result (Start env_http_late False ''/data'' ''en_US'' 1000) =
         Returns (None, Some msg))
   \<and> \<not> list_ex is_socks_wait (start_events (Start env_http_late False ''/data'' ''en_US'' 1000))
   \<and> client_Socks5Addr env_socks_late
        (word_of_int 1000 * Millisecond - elapsed env_socks_late) = None
   \<and> (\<exists>msg. start_result (Start env_socks_late False ''/data'' ''en_US'' 1000) =
         Returns (None, Some msg))"
proof -
  have ready:
    "start_result (Start env_ready False ''/data'' ''en_US'' 1000) =
       Returns (Some \<lparr>HTTPAddr = ''127.0.0.1:8787'', SOCKS5Addr = ''127.0.0.1:8788''\<rparr>, None)"
    by (simp add: Start_def start_result_def env_ready_def)
  have http: "client_Addr env_http_late (word_of_int 1000 * Millisecond) = None"
    by (simp add: env_http_late_def)
  have socks:
    "client_Addr env_socks_late (word_of_int 1000 * Millisecond) \<noteq> None
     \<and> client_Socks5Addr env_socks_late
         (word_of_int 1000 * Millisecond - elapsed env_socks_late) = None"
    by (simp add: env_socks_late_def)
  show ?thesis
    using ready http socks
      Start_no_partial_result [of env_http_late False "''/data''" "''en_US''" 1000]
      Start_no_partial_result [of env_socks_late False "''/data''" "''en_US''" 1000]
    by blast
qed

section \<open>Properties of run\<close>

lemma run_enters_engine_iff:
  "list_ex (\<lambda>e. e = FlashlightRun d) (run env d l) =
     (\<not> os_IsExist (os_MkdirAll env d) \<and> logging_EnableFileLogging env d = None)"
  by (simp add: run_def Let_def split: option.splits)

text \<open>
  C3: the claim is what the log line of the aborting branch says (unable to create the
  directory), and the code does the opposite. When \<open>os.MkdirAll\<close> fails with
  \<open>EACCES\<close>, \<open>run\<close> logs nothing about it and goes on to enable file logging and to
  enter the proxy engine; when it fails with \<open>EEXIST\<close>, \<open>run\<close> logs and returns.
\<close>

theorem run_ignores_mkdir_failure:
  "run (env_mkdir (Some EACCES)) ''/data'' ''en_US'' =
     [MkdirAll ''/data'', EnableFileLogging ''/data'', LogWritingLogMessages ''/data'',
      FlashlightRun ''/data'']
   \<and> run (env_mkdir (Some EEXIST)) ''/data'' ''en_US'' =
     [MkdirAll ''/data'', LogUnableToCreateConfigDir ''/data'' (Some EEXIST)]"
  by (simp add: run_def env_mkdir_def os_IsExist_def strconv_ParseBool_def)

section \<open>Properties of the survey lookup\<close>

text \<open>
  C7: an entry at the exact locale that decodes gives its URL and no error; a missing
  key under another locale than the default resolves under the default; a missing key
  under the default gives the empty URL and no error.
\<close>

theorem extractUrl_fallback:
  "(surveys locale = Some (Some raw) \<and> dec raw = Inr info \<longrightarrow>
      extractUrl dec surveys locale = Returns (Url info, None))
   \<and> (surveys locale = None \<and> locale \<noteq> defaultLocale \<longrightarrow>
        extractUrl dec surveys locale = extractUrl dec surveys defaultLocale)
   \<and> (surveys locale = None \<and> locale = defaultLocale \<longrightarrow>
        extractUrl dec surveys locale = Returns ('''', None))"
proof (intro conjI impI)
  assume "surveys locale = Some (Some raw) \<and> dec raw = Inr info"
  then show "extractUrl dec surveys locale = Returns (Url info, None)"
    by (simp add: extractUrl.simps [of dec surveys "locale"])
next
  assume "surveys locale = None \<and> locale \<noteq> defaultLocale"
  then show "extractUrl dec surveys locale = extractUrl dec surveys defaultLocale"
    by (simp add: extractUrl.simps [of dec surveys "locale"])
next
  assume a: "surveys locale = None \<and> locale = defaultLocale"
  then have "surveys defaultLocale = None" by auto
  with a show "extractUrl dec surveys locale = Returns ('''', None)"
    by (simp add: extractUrl.simps [of dec surveys defaultLocale])
qed

theorem extractUrl_fallback_witness:
  "extractUrl dec_example [''en-US'' \<mapsto> Some ''A''] ''en-US'' =
     Returns (''https://example.org/survey'', None)
   \<and> extractUrl dec_example [''en-US'' \<mapsto> Some ''A''] ''de-DE'' =
     Returns (''https://example.org/survey'', None)
   \<and> extractUrl dec_example Map.empty ''en-US'' = Returns ('''', None)"
  using
    extractUrl_fallback [of "[''en-US'' \<mapsto> Some ''A'']" "''en-US''" "''A''" dec_example survey_A]
    extractUrl_fallback [of "[''en-US'' \<mapsto> Some ''A'']" "''de-DE''" "''A''" dec_example survey_A]
    extractUrl_fallback [of "Map.empty" "''en-US''" "''A''" dec_example survey_A]
  by (simp add: dec_example_def survey_A_def defaultLocale_def)

text \<open>
  C8: an entry at the exact locale that does not decode gives the empty URL and the
  decoder's error, whatever the map holds under the default locale.
\<close>

theorem extractUrl_malformed_no_fallback:
  "surveys locale = Some (Some raw) \<and> dec raw = Inl err \<longrightarrow>
     extractUrl dec surveys locale = Returns ('''', Some err)"
  by (simp add: extractUrl.simps [of dec surveys "locale"])

theorem extractUrl_malformed_no_fallback_witness:
  "extractUrl dec_example [''en-US'' \<mapsto> Some ''A'', ''fr-FR'' \<mapsto> Some ''{''] ''fr-FR'' =
     Returns ('''', Some ''unexpected end of JSON input'')"
  using extractUrl_malformed_no_fallback
    [of "[''en-US'' \<mapsto> Some ''A'', ''fr-FR'' \<mapsto> Some ''{'']" "''fr-FR''" "''{''" dec_example
      "''unexpected end of JSON input''"]
  by (simp add: dec_example_def)

text \<open>
  C9: a call depth of two is enough for every map and every locale: the bounded
  function returns, and returns what \<open>extractUrl\<close> returns.
\<close>

theorem extractUrl_depth_two:
  "extractUrl_fuel 2 dec surveys locale = Some (extractUrl dec surveys locale)"
  by (simp add: numeral_2_eq_2 extractUrl.simps [of dec surveys "locale"]
      extractUrl.simps [of dec surveys defaultLocale]
      split: option.splits sum.splits)



section \<open>Properties of the float64 operations\<close>

lemma ilog2_le: "1 \<le> n \<Longrightarrow> 2 ^ ilog2 n \<le> n"
proof (induction n rule: ilog2.induct)
  case (1 n)
  show ?case
  proof (cases "n < 2")
    case True
    with "1.prems" show ?thesis by (simp add: ilog2.simps [of n])
  next
    case False
    then have "2 ^ ilog2 (n div 2) \<le> n div 2" using "1.IH" by simp
    then have "2 * 2 ^ ilog2 (n div 2) \<le> n" by linarith
    with False show ?thesis by (simp add: ilog2.simps [of n])
  qed
qed

lemma ilog2_gt: "n < 2 ^ Suc (ilog2 n)"
proof (induction n rule: ilog2.induct)
  case (1 n)
  show ?case
  proof (cases "n < 2")
    case True
    then show ?thesis by (simp add: ilog2.simps [of n])
  next
    case False
    then have "n div 2 < 2 ^ Suc (ilog2 (n div 2))" using "1.IH" by simp
    then have "n < 2 * 2 ^ Suc (ilog2 (n div 2))" by linarith
    with False show ?thesis by (simp add: ilog2.simps [of n])
  qed
qed

lemma clog2_ge: "n \<le> 2 ^ clog2 n"
proof (cases "n \<le> 1")
  case True
  then show ?thesis by (simp add: clog2_def)
next
  case False
  have "n - 1 < 2 ^ Suc (ilog2 (n - 1))" by (rule ilog2_gt)
  then have "n \<le> 2 ^ Suc (ilog2 (n - 1))" by linarith
  with False show ?thesis by (simp add: clog2_def)
qed

lemma expo_lower:
  assumes "0 < x"
  shows "2 powi expo x \<le> x"
proof (cases "1 \<le> x")
  case True
  then have n: "1 \<le> nat \<lfloor>x\<rfloor>" by linarith
  have e: "expo x = int (ilog2 (nat \<lfloor>x\<rfloor>))"
    using True by (simp add: expo_def)
  have "(2::real) powi expo x = 2 ^ ilog2 (nat \<lfloor>x\<rfloor>)"
    unfolding e by (rule power_int_of_nat)
  also have "\<dots> = real (2 ^ ilog2 (nat \<lfloor>x\<rfloor>))" by simp
  also have "\<dots> \<le> real (nat \<lfloor>x\<rfloor>)"
    using ilog2_le [OF n] by (simp only: of_nat_le_iff)
  also have "\<dots> \<le> x" using True by linarith
  finally show ?thesis .
next
  case False
  define N where "N = nat \<lceil>1 / x\<rceil>"
  have pos: "0 < 1 / x" using assms by simp
  have "1 / x \<le> of_int \<lceil>1 / x\<rceil>" by (rule le_of_int_ceiling)
  moreover have "0 \<le> \<lceil>1 / x\<rceil>" using pos by linarith
  ultimately have inv: "1 / x \<le> real N"
    unfolding N_def by simp
  have "real N \<le> real (2 ^ clog2 N)" by (rule of_nat_mono [OF clog2_ge])
  also have "\<dots> = 2 ^ clog2 N" by simp
  finally have le: "1 / x \<le> 2 ^ clog2 N" using inv by linarith
  have e: "expo x = - int (clog2 N)"
    using False by (simp add: expo_def N_def)
  have "(2::real) powi expo x = 1 / 2 ^ clog2 N"
    unfolding e by (simp add: power_int_minus_divide)
  also have "\<dots> \<le> x"
  proof -
    have p: "(0::real) < 2 ^ clog2 N" by simp
    from le have "1 \<le> 2 ^ clog2 N * x"
      using assms by (simp add: pos_divide_le_eq)
    then show ?thesis using p by (simp add: pos_divide_le_eq mult.commute)
  qed
  finally show ?thesis .
qed

lemma expo_less:
  assumes "0 < x" and "x < 2 powi k"
  shows "expo x < k"
proof (rule ccontr)
  assume "\<not> expo x < k"
  then have "k \<le> expo x" by simp
  then have "(2::real) powi k \<le> 2 powi expo x" by (intro power_int_increasing) auto
  with expo_lower [OF assms(1)] assms(2) show False by linarith
qed

lemma round_even_err: "\<bar>of_int (round_even y) - y\<bar> \<le> 1 / 2"
  unfolding round_even_def Let_def by (auto simp add: abs_if) linarith+

lemma round_even_nonneg: "0 \<le> y \<Longrightarrow> 0 \<le> round_even y"
  unfolding round_even_def Let_def by (auto simp add: le_floor_iff) 

lemma round_even_of_int: "round_even (of_int z) = z"
  by (simp add: round_even_def)

lemma round64_eval:
  assumes "x \<noteq> 0"
    and "expo \<bar>x\<bar> = E"
    and "round_even (\<bar>x\<bar> / 2 powi (max E (- 1022) - 52)) = m"
    and "of_int m * 2 powi (max E (- 1022) - 52) < (2::real) powi 1024"
  shows "round64 x = Finite (sgn x * (of_int m * 2 powi (max E (- 1022) - 52)))"
  using assms unfolding round64_def Let_def by (simp only: if_False not_le [symmetric])

lemma round64_abs_err:
  assumes "0 < x" and "x < 2 powi k" and "- 1021 \<le> k" and "k \<le> 1023"
  shows "\<exists>q. round64 x = Finite q \<and> 0 \<le> q \<and> \<bar>q - x\<bar> \<le> 2 powi (k - 54)"
proof -
  define e where "e = max (expo x) (- 1022) - 52"
  define P where "P = (2::real) powi e"
  define m where "m = round_even (x / P)"
  define r where "r = real_of_int m * P"
  have P: "0 < P" by (simp add: P_def)
  have "expo x < k" using assms(1,2) by (rule expo_less)
  then have e: "e \<le> k - 53" using assms(3) by (simp add: e_def)
  have "P \<le> 2 powi (k - 53)" unfolding P_def using e by (intro power_int_increasing) auto
  also have "(2::real) powi (k - 53) = 2 powi (k - 54) * 2"
    using power_int_add_1 [of "2::real" "k - 54"] by simp
  finally have Ple: "P / 2 \<le> 2 powi (k - 54)" by simp
  have "\<bar>real_of_int m - x / P\<bar> \<le> 1 / 2" unfolding m_def by (rule round_even_err)
  then have "\<bar>real_of_int m - x / P\<bar> * P \<le> 1 / 2 * P"
    using P by (intro mult_right_mono) auto
  moreover have "\<bar>real_of_int m - x / P\<bar> * P = \<bar>r - x\<bar>"
  proof -
    have "\<bar>real_of_int m - x / P\<bar> * P = \<bar>(real_of_int m - x / P) * P\<bar>"
      using P by (simp add: abs_mult)
    also have "(real_of_int m - x / P) * P = r - x"
      using P by (simp add: r_def left_diff_distrib)
    finally show ?thesis .
  qed
  ultimately have err: "\<bar>r - x\<bar> \<le> 2 powi (k - 54)" using Ple by linarith
  have "0 \<le> x / P" using assms(1) P by simp
  then have "0 \<le> m" unfolding m_def by (rule round_even_nonneg)
  then have r0: "0 \<le> r" using P by (simp add: r_def)
  have "(2::real) powi (k - 54) \<le> 2 powi k" by (intro power_int_increasing) auto
  with err assms(2) have "r < 2 powi k + 2 powi k" by linarith
  also have "\<dots> = 2 powi (k + 1)"
    using power_int_add_1 [of "2::real" k] by simp
  also have "\<dots> \<le> 2 powi 1024" using assms(4) by (intro power_int_increasing) auto
  finally have fin: "r < 2 powi 1024" .
  have "round64 x = Finite (sgn x * r)"
    unfolding r_def m_def P_def e_def
    using assms(1) fin [unfolded r_def m_def P_def e_def]
    by (intro round64_eval) (simp_all add: abs_of_pos)
  then have "round64 x = Finite r" using assms(1) by simp
  with r0 err show ?thesis by blast
qed

lemma round64_of_int_exact:
  assumes "\<bar>n\<bar> < 2 ^ 53"
  shows "round64 (of_int n) = Finite (of_int n)"
proof (cases "n = 0")
  case True
  then show ?thesis by (simp add: round64_def)
next
  case False
  define a where "a = real_of_int \<bar>n\<bar>"
  have a1: "1 \<le> a" using False by (simp add: a_def)
  have a: "\<bar>real_of_int n\<bar> = a" by (simp add: a_def)
  define E where "E = expo a"
  have "a < 2 ^ 53"
  proof -
    have "real_of_int \<bar>n\<bar> < real_of_int (2 ^ 53)" using assms by (simp only: of_int_less_iff)
    then show ?thesis by (simp add: a_def)
  qed
  then have "a < 2 powi 53" by simp
  then have E53: "E < 53" unfolding E_def using a1 by (intro expo_less) auto
  have E0: "0 \<le> E" using a1 by (simp add: E_def expo_def)
  define j where "j = nat (52 - E)"
  have e: "max E (- 1022) - 52 = - int j" using E0 E53 by (simp add: j_def)
  have P: "(2::real) powi (max E (- 1022) - 52) = 1 / 2 ^ j"
    unfolding e by (simp add: power_int_minus_divide)
  have "a / (1 / 2 ^ j) = real_of_int (\<bar>n\<bar> * 2 ^ j)" by (simp add: a_def)
  then have m: "round_even (\<bar>real_of_int n\<bar> / 2 powi (max E (- 1022) - 52)) = \<bar>n\<bar> * 2 ^ j"
    unfolding a P by (simp only: round_even_of_int)
  have val: "real_of_int (\<bar>n\<bar> * 2 ^ j) * 2 powi (max E (- 1022) - 52) = a"
    unfolding P by (simp add: a_def)
  have "a < 2 powi 1024"
  proof -
    have "(2::real) powi 53 \<le> 2 powi 1024" by (intro power_int_increasing) auto
    with \<open>a < 2 powi 53\<close> show ?thesis by linarith
  qed
  then have fin: "real_of_int (\<bar>n\<bar> * 2 ^ j) * 2 powi (max E (- 1022) - 52) < 2 powi 1024"
    unfolding val .
  have nz: "real_of_int n \<noteq> 0" using False by simp
  have "round64 (of_int n) =
      Finite (sgn (real_of_int n) * (real_of_int (\<bar>n\<bar> * 2 ^ j) * 2 powi (max E (- 1022) - 52)))"
    using nz _ m fin by (rule round64_eval) (simp add: E_def a)
  also have "sgn (real_of_int n) * (real_of_int (\<bar>n\<bar> * 2 ^ j) * 2 powi (max E (- 1022) - 52))
      = real_of_int n"
    unfolding val a_def by (simp add: sgn_if)
  finally show ?thesis .
qed

lemma percent_float:
  fixes u a :: int
  assumes "0 \<le> u" and "u < a" and "a \<le> 50000000"
  shows "\<exists>p. f64_mul (Finite 100) (f64_div (round64 (of_int u)) (round64 (of_int a))) = Finite p
           \<and> 0 \<le> p \<and> \<bar>p - 100 * of_int u / of_int a\<bar> \<le> 2 powi (- 46)"
proof -
  have cu: "round64 (of_int u) = Finite (of_int u)"
    using assms by (intro round64_of_int_exact) simp
  have ca: "round64 (of_int a) = Finite (of_int a)"
    using assms by (intro round64_of_int_exact) simp
  have a0: "real_of_int a \<noteq> 0" using assms by simp
  have dv: "f64_div (round64 (of_int u)) (round64 (of_int a)) = round64 (of_int u / of_int a)"
    unfolding cu ca using a0 by simp
  show ?thesis
  proof (cases "u = 0")
    case True
    then show ?thesis unfolding dv by (simp add: round64_def)
  next
    case False
    define x where "x = real_of_int u / real_of_int a"
    have apos: "0 < real_of_int a" using assms by simp
    have upos: "1 \<le> real_of_int u" using False assms(1) by simp
    have x0: "0 < x" unfolding x_def using apos upos by simp
    have x1: "x < 2 powi 0" unfolding x_def using apos assms(2) by simp
    from round64_abs_err [OF x0 x1] obtain q where
      q: "round64 x = Finite q" "0 \<le> q" "\<bar>q - x\<bar> \<le> 2 powi (0 - 54)"
      by auto
    have qe: "\<bar>q - x\<bar> \<le> 1 / 2 ^ 54" using q(3) by (simp add: power_int_minus_divide)
    have "real_of_int a \<le> 50000000" using assms(3) by linarith
    then have "1 / 50000000 \<le> 1 / real_of_int a"
      using apos by (intro divide_left_mono) auto
    also have "\<dots> \<le> x" unfolding x_def using upos apos by (intro divide_right_mono) auto
    finally have xlow: "1 / 50000000 \<le> x" .
    have "(1::real) / 2 ^ 54 < 1 / 50000000" by simp
    with qe xlow have qpos: "0 < q" by linarith
    have x1': "x < 1" using x1 by simp
    have qup: "q < 1 + 1 / 2 ^ 54" using qe x1' by linarith
    have y0: "0 < 100 * q" using qpos by simp
    have y1: "100 * q < 2 powi 7" using qup by simp
    from round64_abs_err [OF y0 y1] obtain p where
      p: "round64 (100 * q) = Finite p" "0 \<le> p" "\<bar>p - 100 * q\<bar> \<le> 2 powi (7 - 54)"
      by auto
    have pe: "\<bar>p - 100 * q\<bar> \<le> 1 / 2 ^ 47" using p(3) by (simp add: power_int_minus_divide)
    have "\<bar>p - 100 * x\<bar> \<le> 1 / 2 ^ 47 + 100 * (1 / 2 ^ 54)" using pe qe by linarith
    also have "\<dots> \<le> 1 / 2 ^ 46" by simp
    finally have "\<bar>p - 100 * real_of_int u / real_of_int a\<bar> \<le> 2 powi (- 46)"
      by (simp add: x_def power_int_minus_divide)
    moreover have "f64_mul (Finite 100) (f64_div (round64 (of_int u)) (round64 (of_int a))) = Finite p"
      unfolding dv using q(1) p(1) by (simp add: x_def)
    ultimately show ?thesis using p(2) by blast
  qed
qed

lemma floor_near_quotient:
  fixes u a :: int and p :: real
  assumes "0 \<le> u" and "u < a" and "a \<le> 50000000"
    and "0 \<le> p" and "\<bar>p - 100 * of_int u / of_int a\<bar> \<le> 2 powi (- 46)"
  shows "\<lfloor>p\<rfloor> = (100 * u) div a \<or> a dvd 100 * u \<and> \<lfloor>p\<rfloor> = (100 * u) div a - 1"
proof -
  define k where "k = (100 * u) div a"
  define r where "r = (100 * u) mod a"
  have apos: "0 < a" using assms by simp
  have ra: "0 \<le> r" "r < a" using apos by (simp_all add: r_def)
  have split: "100 * u = k * a + r" by (simp add: k_def r_def)
  have ar: "0 < real_of_int a" using apos by simp
  have X: "100 * real_of_int u / real_of_int a = real_of_int k + real_of_int r / real_of_int a"
  proof -
    have "100 * real_of_int u = real_of_int (100 * u)" by simp
    also have "\<dots> = real_of_int k * real_of_int a + real_of_int r"
      unfolding split by simp
    finally show ?thesis using ar by (simp add: field_simps)
  qed
  have d: "\<bar>p - (real_of_int k + real_of_int r / real_of_int a)\<bar> \<le> 1 / 2 ^ 46"
    using assms(5) unfolding X by (simp add: power_int_minus_divide)
  have small: "(1::real) / 2 ^ 46 < 1 / 50000000" by simp
  have "real_of_int a \<le> 50000000" using assms(3) by linarith
  then have ia: "1 / 50000000 \<le> 1 / real_of_int a" using ar by (intro divide_left_mono) auto
  show ?thesis
  proof (cases "r = 0")
    case True
    then have dvd: "a dvd 100 * u" using split by simp
    from True d have dk: "\<bar>p - real_of_int k\<bar> \<le> 1 / 2 ^ 46" by simp
    have "(1::real) / 2 ^ 46 < 1" by simp
    with dk have "real_of_int k - 1 < p" "p < real_of_int k + 1" by linarith+
    then have "real_of_int (k - 1) \<le> p" "p < real_of_int (k + 1)" by auto
    then have "k - 1 \<le> \<lfloor>p\<rfloor>" "\<lfloor>p\<rfloor> < k + 1"
      by (simp_all only: le_floor_iff floor_less_iff)
    then have "\<lfloor>p\<rfloor> = k \<or> \<lfloor>p\<rfloor> = k - 1" by linarith
    with dvd show ?thesis unfolding k_def by blast
  next
    case False
    then have r1: "1 \<le> real_of_int r" "real_of_int r \<le> real_of_int a - 1" using ra by linarith+
    have lo: "1 / real_of_int a \<le> real_of_int r / real_of_int a"
      using r1(1) ar by (intro divide_right_mono) auto
    have "real_of_int r / real_of_int a \<le> (real_of_int a - 1) / real_of_int a"
      using r1(2) ar by (intro divide_right_mono) auto
    also have "\<dots> = 1 - 1 / real_of_int a" using ar by (simp add: field_simps)
    finally have hi: "real_of_int r / real_of_int a \<le> 1 - 1 / real_of_int a" .
    from d lo hi ia small have "real_of_int k \<le> p" "p < real_of_int k + 1" by linarith+
    then have "\<lfloor>p\<rfloor> = k" by (intro floor_unique) auto
    then show ?thesis unfolding k_def by blast
  qed
qed

lemma trunc_zero_nonneg: "0 \<le> x \<Longrightarrow> trunc_zero x = \<lfloor>x\<rfloor>"
  by (simp add: trunc_zero_def)

lemma sint_small:
  assumes "0 \<le> z" and "z \<le> 100"
  shows "sint (word_of_int z :: 64 word) = z"
proof -
  have "sint (word_of_int z :: 64 word) = signed_take_bit 63 z"
    by (simp add: sint_sbintrunc')
  also have "\<dots> = z" using assms by (intro signed_take_bit_int_eq_self) auto
  finally show ?thesis .
qed

text \<open>The percentage of a sample that is not discarded and has \<open>0 \<le> used < allowed\<close>.\<close>

lemma percent_word:
  fixes used allowed :: "64 word" and impl :: "float64 \<Rightarrow> 64 word"
  assumes "0 \<le> sint used" and "sint used < sint allowed" and "sint allowed \<le> 50000000"
  defines "pc \<equiv> int_of_float64 impl
     (f64_mul (Finite 100) (f64_div (float64_of_int64 used) (float64_of_int64 allowed)))"
  shows "0 \<le> sint pc \<and> sint pc \<le> 99
     \<and> (sint pc = (100 * sint used) div sint allowed
        \<or> sint allowed dvd 100 * sint used \<and> sint pc = (100 * sint used) div sint allowed - 1)"
proof -
  from percent_float [OF assms(1-3)] obtain p where
    p: "f64_mul (Finite 100) (f64_div (round64 (of_int (sint used))) (round64 (of_int (sint allowed))))
          = Finite p"
      "0 \<le> p" "\<bar>p - 100 * of_int (sint used) / of_int (sint allowed)\<bar> \<le> 2 powi (- 46)"
    by blast
  define k where "k = (100 * sint used) div sint allowed"
  have fl: "\<lfloor>p\<rfloor> = k \<or> sint allowed dvd 100 * sint used \<and> \<lfloor>p\<rfloor> = k - 1"
    unfolding k_def using assms(1-3) p(2,3) by (rule floor_near_quotient)
  have f0: "0 \<le> \<lfloor>p\<rfloor>" using p(2) by simp
  have apos: "0 < sint allowed" using assms(1,2) by linarith
  have "k * sint allowed + (100 * sint used) mod sint allowed = 100 * sint used"
    by (simp add: k_def)
  moreover have "0 \<le> (100 * sint used) mod sint allowed" using apos by simp
  ultimately have "k * sint allowed \<le> 100 * sint used" by linarith
  also have "\<dots> < 100 * sint allowed" using assms(2) by simp
  finally have "k < 100" using apos by (simp add: mult_less_cancel_right)
  with fl have f99: "\<lfloor>p\<rfloor> \<le> 99" by linarith
  have "pc = word_of_int \<lfloor>p\<rfloor>"
    unfolding pc_def float64_of_int64_def p(1) int_of_float64_def
    using f0 f99 p(2) by (simp add: trunc_zero_nonneg)
  then have "sint pc = \<lfloor>p\<rfloor>" using f0 f99 by (simp add: sint_small)
  with fl f0 f99 show ?thesis unfolding k_def by simp
qed

lemma round64_evalI:
  assumes "x \<noteq> 0"
    and "expo \<bar>x\<bar> = E"
    and "e = max E (- 1022) - 52"
    and "round_even (\<bar>x\<bar> / 2 powi e) = m"
    and "of_int m * 2 powi e < (2::real) powi 1024"
    and "y = sgn x * (of_int m * 2 powi e)"
  shows "round64 x = Finite y"
  using round64_eval [of x E m] assms by simp

lemma round64_int_numeral:
  "round64 29 = Finite 29" "round64 100 = Finite 100" "round64 (- 50) = Finite (- 50)"
  "round64 (- 1) = Finite (- 1)" "round64 3 = Finite 3" "round64 50 = Finite 50"
  "round64 200 = Finite 200" "round64 25 = Finite 25"
  using round64_of_int_exact [of 29] round64_of_int_exact [of 100]
    round64_of_int_exact [of "- 50"] round64_of_int_exact [of "- 1"]
    round64_of_int_exact [of 3] round64_of_int_exact [of 50]
    round64_of_int_exact [of 200] round64_of_int_exact [of 25]
  by simp_all

lemma round64_minus_half: "round64 (- 1 / 2) = Finite (- 1 / 2)"
proof (rule round64_evalI)
  show "(- 1 / 2 :: real) \<noteq> 0" by simp
  show "expo \<bar>- 1 / 2\<bar> = - 1" by (simp add: expo_def clog2_def ilog2.simps)
  show "- 53 = max (- 1) (- 1022) - (52::int)" by simp
  show "round_even (\<bar>- 1 / 2\<bar> / 2 powi (- 53)) = 4503599627370496"
    by (simp add: round_even_def Let_def power_int_minus)
  show "real_of_int 4503599627370496 * 2 powi (- 53) < 2 powi 1024"
    by (simp add: power_int_minus)
  show "(- 1 / 2 :: real) = sgn (- 1 / 2) * (real_of_int 4503599627370496 * 2 powi (- 53))"
    by (simp add: power_int_minus)
qed

lemma round64_quarter: "round64 (1 / 4) = Finite (1 / 4)"
proof (rule round64_evalI)
  show "(1 / 4 :: real) \<noteq> 0" by simp
  show "expo \<bar>1 / 4\<bar> = - 2" by (simp add: expo_def clog2_def ilog2.simps)
  show "- 54 = max (- 2) (- 1022) - (52::int)" by simp
  show "round_even (\<bar>1 / 4\<bar> / 2 powi (- 54)) = 4503599627370496"
    by (simp add: round_even_def Let_def power_int_minus)
  show "real_of_int 4503599627370496 * 2 powi (- 54) < 2 powi 1024"
    by (simp add: power_int_minus)
  show "(1 / 4 :: real) = sgn (1 / 4) * (real_of_int 4503599627370496 * 2 powi (- 54))"
    by (simp add: power_int_minus)
qed

lemma round64_29_100: "round64 (29 / 100) = Finite (5224175567749775 / 2 ^ 54)"
proof (rule round64_evalI)
  show "(29 / 100 :: real) \<noteq> 0" by simp
  show "expo \<bar>29 / 100\<bar> = - 2" by (simp add: expo_def clog2_def ilog2.simps)
  show "- 54 = max (- 2) (- 1022) - (52::int)" by simp
  show "round_even (\<bar>29 / 100\<bar> / 2 powi (- 54)) = 5224175567749775"
    by (simp add: round_even_def Let_def power_int_minus)
  show "real_of_int 5224175567749775 * 2 powi (- 54) < 2 powi 1024"
    by (simp add: power_int_minus)
  show "(5224175567749775 / 2 ^ 54 :: real) =
      sgn (29 / 100) * (real_of_int 5224175567749775 * 2 powi (- 54))"
    by (simp add: power_int_minus)
qed

lemma round64_29_percent:
  "round64 (100 * (5224175567749775 / 2 ^ 54)) = Finite (8162774324609023 / 2 ^ 48)"
proof (rule round64_evalI)
  show "(100 * (5224175567749775 / 2 ^ 54) :: real) \<noteq> 0" by simp
  show "expo \<bar>100 * (5224175567749775 / 2 ^ 54)\<bar> = 4"
    by (simp add: expo_def clog2_def ilog2.simps)
  show "- 48 = max 4 (- 1022) - (52::int)" by simp
  show "round_even (\<bar>100 * (5224175567749775 / 2 ^ 54)\<bar> / 2 powi (- 48)) = 8162774324609023"
    by (simp add: round_even_def Let_def power_int_minus)
  show "real_of_int 8162774324609023 * 2 powi (- 48) < 2 powi 1024"
    by (simp add: power_int_minus)
  show "(8162774324609023 / 2 ^ 48 :: real) =
      sgn (100 * (5224175567749775 / 2 ^ 54)) * (real_of_int 8162774324609023 * 2 powi (- 48))"
    by (simp add: power_int_minus)
qed

lemma round64_minus_third: "round64 (- 1 / 3) = Finite (- 6004799503160661 / 2 ^ 54)"
proof (rule round64_evalI)
  show "(- 1 / 3 :: real) \<noteq> 0" by simp
  show "expo \<bar>- 1 / 3\<bar> = - 2" by (simp add: expo_def clog2_def ilog2.simps)
  show "- 54 = max (- 2) (- 1022) - (52::int)" by simp
  show "round_even (\<bar>- 1 / 3\<bar> / 2 powi (- 54)) = 6004799503160661"
    by (simp add: round_even_def Let_def power_int_minus)
  show "real_of_int 6004799503160661 * 2 powi (- 54) < 2 powi 1024"
    by (simp add: power_int_minus)
  show "(- 6004799503160661 / 2 ^ 54 :: real) =
      sgn (- 1 / 3) * (real_of_int 6004799503160661 * 2 powi (- 54))"
    by (simp add: power_int_minus)
qed

lemma round64_minus_third_percent:
  "round64 (100 * (- 6004799503160661 / 2 ^ 54)) = Finite (- 4691249611844266 / 2 ^ 47)"
proof (rule round64_evalI)
  show "(100 * (- 6004799503160661 / 2 ^ 54) :: real) \<noteq> 0" by simp
  show "expo \<bar>100 * (- 6004799503160661 / 2 ^ 54)\<bar> = 5"
    by (simp add: expo_def clog2_def ilog2.simps)
  show "- 47 = max 5 (- 1022) - (52::int)" by simp
  show "round_even (\<bar>100 * (- 6004799503160661 / 2 ^ 54)\<bar> / 2 powi (- 47)) = 4691249611844266"
    by (simp add: round_even_def Let_def power_int_minus)
  show "real_of_int 4691249611844266 * 2 powi (- 47) < 2 powi 1024"
    by (simp add: power_int_minus)
  show "(- 4691249611844266 / 2 ^ 47 :: real) =
      sgn (100 * (- 6004799503160661 / 2 ^ 54)) * (real_of_int 4691249611844266 * 2 powi (- 47))"
    by (simp add: power_int_minus)
qed

lemma percent_eval:
  assumes "round64 (real_of_int (sint u)) = Finite U"
    and "round64 (real_of_int (sint a)) = Finite A"
    and "A \<noteq> 0"
    and "round64 (U / A) = Finite Q"
    and "round64 (100 * Q) = Finite P"
    and "trunc_zero P = z"
    and "- (2 ^ 63) \<le> z" and "z < 2 ^ 63"
  shows "int_of_float64 impl
           (f64_mul (Finite 100) (f64_div (float64_of_int64 u) (float64_of_int64 a)))
         = word_of_int z"
  using assms by (simp add: float64_of_int64_def int_of_float64_def)

lemma quota_signal_else:
  assumes "0 \<le> sint a" and "sint a \<le> 50000000" and "sint u < sint a"
  shows "quota_signal impl (Some \<lparr>MiBAllowed = a, MiBUsed = u\<rparr>) =
           Some (int_of_float64 impl
                   (f64_mul (Finite 100) (f64_div (float64_of_int64 u) (float64_of_int64 a))),
                 a - u)"
  using assms by (simp add: quota_signal_def)

lemma quota_signal_minus_50:
  "quota_signal indefinite (Some \<lparr>MiBAllowed = 100, MiBUsed = - 50\<rparr>) = Some (- 50, 150)"
proof -
  have q: "round64 (- 50 / 100) = Finite (- 1 / 2)" using round64_minus_half by simp
  have p: "round64 (100 * (- 1 / 2)) = Finite (- 50)" using round64_int_numeral(3) by simp
  have "int_of_float64 indefinite
          (f64_mul (Finite 100) (f64_div (float64_of_int64 (- 50)) (float64_of_int64 100)))
        = word_of_int (- 50)"
    by (rule percent_eval [where U = "- 50" and A = 100, OF _ _ _ q p])
      (simp_all add: round64_int_numeral trunc_zero_def)
  then show ?thesis by (simp add: quota_signal_else)
qed

lemma quota_signal_29:
  "quota_signal indefinite (Some \<lparr>MiBAllowed = 100, MiBUsed = 29\<rparr>) = Some (28, 71)"
proof -
  have "int_of_float64 indefinite
          (f64_mul (Finite 100) (f64_div (float64_of_int64 29) (float64_of_int64 100)))
        = word_of_int 28"
    by (rule percent_eval [where U = 29 and A = 100, OF _ _ _ round64_29_100 round64_29_percent])
      (simp_all add: round64_int_numeral trunc_zero_def)
  then show ?thesis by (simp add: quota_signal_else)
qed

lemma quota_signal_minus_1:
  "quota_signal indefinite (Some \<lparr>MiBAllowed = 3, MiBUsed = - 1\<rparr>) = Some (- 33, 4)"
proof -
  have "int_of_float64 indefinite
          (f64_mul (Finite 100) (f64_div (float64_of_int64 (- 1)) (float64_of_int64 3)))
        = word_of_int (- 33)"
    by (rule percent_eval [where U = "- 1" and A = 3,
          OF _ _ _ round64_minus_third round64_minus_third_percent])
      (simp_all add: round64_int_numeral trunc_zero_def)
  then show ?thesis by (simp add: quota_signal_else)
qed

lemma quota_signal_50_200:
  "quota_signal indefinite (Some \<lparr>MiBAllowed = 200, MiBUsed = 50\<rparr>) = Some (25, 150)"
  by (simp add: quota_signal_def float64_of_int64_def round64_int_numeral round64_quarter
      int_of_float64_def trunc_zero_def)

section \<open>Properties of bandwidthUpdates\<close>

text \<open>
  C4, as stated, fails: with \<open>MiBAllowed = 100\<close> and \<open>MiBUsed = - 50\<close> the sample is not
  discarded and the percentage of the signal is \<open>- 50\<close>.
\<close>

theorem quota_signal_negative_percent:
  "quota_signal indefinite (Some \<lparr>MiBAllowed = 100, MiBUsed = - 50\<rparr>) = Some (- 50, 150)
   \<and> sint (- 50 :: 64 word) < 0"
  using quota_signal_minus_50 by simp

text \<open>
  C4, amended: for every sample with \<open>MiBUsed \<ge> 0\<close> that produces a signal, the
  percentage is in \<open>[0, 100]\<close> and the remaining amount is not negative.
\<close>

theorem quota_signal_in_range:
  "quota_signal impl (Some q) = Some (pc, rem) \<and> 0 \<le> sint (MiBUsed q) \<longrightarrow>
     0 \<le> sint pc \<and> sint pc \<le> 100 \<and> 0 \<le> sint rem"
proof
  assume h: "quota_signal impl (Some q) = Some (pc, rem) \<and> 0 \<le> sint (MiBUsed q)"
  then have u0: "0 \<le> sint (MiBUsed q)" by simp
  from h have keep: "0 \<le> sint (MiBAllowed q)" "sint (MiBAllowed q) \<le> 50000000"
    by (auto simp add: quota_signal_def Let_def split: if_splits)
  show "0 \<le> sint pc \<and> sint pc \<le> 100 \<and> 0 \<le> sint rem"
  proof (cases "sint (MiBAllowed q) \<le> sint (MiBUsed q)")
    case True
    with h keep have "pc = 100" "rem = 0" by (auto simp add: quota_signal_def Let_def)
    then show ?thesis by simp
  next
    case False
    then have lt: "sint (MiBUsed q) < sint (MiBAllowed q)" by simp
    from h keep False have pc: "pc = int_of_float64 impl
        (f64_mul (Finite 100) (f64_div (float64_of_int64 (MiBUsed q))
           (float64_of_int64 (MiBAllowed q))))"
      and rem: "rem = MiBAllowed q - MiBUsed q"
      by (auto simp add: quota_signal_def Let_def)
    have "0 \<le> sint pc \<and> sint pc \<le> 99" unfolding pc using percent_word [OF u0 lt keep(2)] by blast
    moreover have "sint rem = sint (MiBAllowed q) - sint (MiBUsed q)"
      unfolding rem using keep(1) u0 by (rule sint_diff_nonneg)
    ultimately show ?thesis using lt by simp
  qed
qed

theorem quota_signal_in_range_witness:
  "quota_signal indefinite (Some \<lparr>MiBAllowed = 200, MiBUsed = 50\<rparr>) = Some (25, 150)
   \<and> 0 \<le> sint (25 :: 64 word) \<and> sint (25 :: 64 word) \<le> 100 \<and> 0 \<le> sint (150 :: 64 word)"
  using quota_signal_50_200
    quota_signal_in_range [of indefinite "\<lparr>MiBAllowed = 200, MiBUsed = 50\<rparr>" 25 150]
  by simp

text \<open>
  C5, as stated, fails: the percentage is computed in \<open>float64\<close>, not in exact integer
  arithmetic. With \<open>MiBAllowed = 100\<close> and \<open>MiBUsed = 29\<close> the quotient \<open>29 / 100\<close> rounds
  below \<open>0.29\<close>, the product with 100 rounds to the \<open>float64\<close> just below 29, and the
  percentage is 28, not \<open>floor (100 * 29 / 100) = 29\<close>. With a negative \<open>MiBUsed\<close> the
  conversion truncates towards zero: \<open>- 33\<close> where the floor is \<open>- 34\<close>.
\<close>

theorem quota_signal_percent_not_floor:
  "quota_signal indefinite (Some \<lparr>MiBAllowed = 100, MiBUsed = 29\<rparr>) = Some (28, 71)
   \<and> (100 * 29) div 100 = (29 :: int)
   \<and> quota_signal indefinite (Some \<lparr>MiBAllowed = 3, MiBUsed = - 1\<rparr>) = Some (- 33, 4)
   \<and> (100 * (- 1)) div 3 = (- 34 :: int)"
  using quota_signal_29 quota_signal_minus_1 by simp

text \<open>
  C5, amended: for every quota with \<open>0 \<le> MiBAllowed \<le> 50,000,000\<close>: if
  \<open>MiBUsed \<ge> MiBAllowed\<close> the signal is \<open>(100, 0)\<close>; if \<open>0 \<le> MiBUsed < MiBAllowed\<close> the
  remaining amount is \<open>MiBAllowed - MiBUsed\<close> exactly, and the percentage is
  \<open>floor (100 * MiBUsed / MiBAllowed)\<close> or, only when \<open>MiBAllowed\<close> divides
  \<open>100 * MiBUsed\<close>, possibly one less.
\<close>

theorem quota_signal_percent:
  "0 \<le> sint (MiBAllowed q) \<and> sint (MiBAllowed q) \<le> 50000000 \<longrightarrow>
     (sint (MiBAllowed q) \<le> sint (MiBUsed q) \<longrightarrow>
        quota_signal impl (Some q) = Some (100, 0))
     \<and> (0 \<le> sint (MiBUsed q) \<and> sint (MiBUsed q) < sint (MiBAllowed q) \<longrightarrow>
          (\<exists>pc. quota_signal impl (Some q) = Some (pc, MiBAllowed q - MiBUsed q)
             \<and> sint (MiBAllowed q - MiBUsed q) = sint (MiBAllowed q) - sint (MiBUsed q)
             \<and> (sint pc = (100 * sint (MiBUsed q)) div sint (MiBAllowed q)
                \<or> sint (MiBAllowed q) dvd 100 * sint (MiBUsed q)
                  \<and> sint pc = (100 * sint (MiBUsed q)) div sint (MiBAllowed q) - 1)))"
proof (intro impI conjI)
  assume keep: "0 \<le> sint (MiBAllowed q) \<and> sint (MiBAllowed q) \<le> 50000000"
  assume "sint (MiBAllowed q) \<le> sint (MiBUsed q)"
  with keep show "quota_signal impl (Some q) = Some (100, 0)"
    by (simp add: quota_signal_def Let_def)
next
  assume keep: "0 \<le> sint (MiBAllowed q) \<and> sint (MiBAllowed q) \<le> 50000000"
  assume u: "0 \<le> sint (MiBUsed q) \<and> sint (MiBUsed q) < sint (MiBAllowed q)"
  define pc where "pc = int_of_float64 impl
        (f64_mul (Finite 100) (f64_div (float64_of_int64 (MiBUsed q))
           (float64_of_int64 (MiBAllowed q))))"
  have sig: "quota_signal impl (Some q) = Some (pc, MiBAllowed q - MiBUsed q)"
    using keep u by (simp add: quota_signal_def Let_def pc_def)
  have rem: "sint (MiBAllowed q - MiBUsed q) = sint (MiBAllowed q) - sint (MiBUsed q)"
    using keep u by (intro sint_diff_nonneg) auto
  have "sint pc = (100 * sint (MiBUsed q)) div sint (MiBAllowed q)
      \<or> sint (MiBAllowed q) dvd 100 * sint (MiBUsed q)
        \<and> sint pc = (100 * sint (MiBUsed q)) div sint (MiBAllowed q) - 1"
    unfolding pc_def using percent_word [of "MiBUsed q" "MiBAllowed q" impl] keep u by blast
  with sig rem show "\<exists>pc. quota_signal impl (Some q) = Some (pc, MiBAllowed q - MiBUsed q)
             \<and> sint (MiBAllowed q - MiBUsed q) = sint (MiBAllowed q) - sint (MiBUsed q)
             \<and> (sint pc = (100 * sint (MiBUsed q)) div sint (MiBAllowed q)
                \<or> sint (MiBAllowed q) dvd 100 * sint (MiBUsed q)
                  \<and> sint pc = (100 * sint (MiBUsed q)) div sint (MiBAllowed q) - 1)"
    by blast
qed

theorem quota_signal_percent_witness:
  "quota_signal indefinite (Some \<lparr>MiBAllowed = 100, MiBUsed = 100\<rparr>) = Some (100, 0)
   \<and> quota_signal indefinite (Some \<lparr>MiBAllowed = 200, MiBUsed = 50\<rparr>) = Some (25, 150)
   \<and> (100 * 50) div 200 = (25 :: int)
   \<and> sint (200 - 50 :: 64 word) = 150"
  using quota_signal_50_200
    quota_signal_percent [of "\<lparr>MiBAllowed = 100, MiBUsed = 100\<rparr>" indefinite]
    quota_signal_percent [of "\<lparr>MiBAllowed = 200, MiBUsed = 50\<rparr>" indefinite]
  by simp

text \<open>
  C6: a sample produces no signal, and the loop makes no call for it, exactly when it is
  nil or its \<open>MiBAllowed\<close> is negative or above 50,000,000; \<open>- 1\<close> and 50,000,001 are
  discarded and 50,000,000 is not.
\<close>

theorem quota_signal_discarded:
  "((quota_signal impl quota = None) =
       (quota = None
        \<or> (\<exists>q. quota = Some q
             \<and> (sint (MiBAllowed q) < 0 \<or> 50000000 < sint (MiBAllowed q)))))
   \<and> ((bandwidthUpdates impl [quota] = []) = (quota_signal impl quota = None))
   \<and> quota_signal impl (Some \<lparr>MiBAllowed = - 1, MiBUsed = 0\<rparr>) = None
   \<and> quota_signal impl (Some \<lparr>MiBAllowed = 50000001, MiBUsed = 0\<rparr>) = None
   \<and> quota_signal impl (Some \<lparr>MiBAllowed = 50000000, MiBUsed = 0\<rparr>) \<noteq> None"
proof (intro conjI)
  show "(quota_signal impl quota = None) =
       (quota = None
        \<or> (\<exists>q. quota = Some q
             \<and> (sint (MiBAllowed q) < 0 \<or> 50000000 < sint (MiBAllowed q))))"
    by (cases quota) (auto simp add: quota_signal_def Let_def)
  show "(bandwidthUpdates impl [quota] = []) = (quota_signal impl quota = None)"
    by (simp split: option.splits)
  show "quota_signal impl (Some \<lparr>MiBAllowed = - 1, MiBUsed = 0\<rparr>) = None"
    by (simp add: quota_signal_def)
  show "quota_signal impl (Some \<lparr>MiBAllowed = 50000001, MiBUsed = 0\<rparr>) = None"
    by (simp add: quota_signal_def)
  show "quota_signal impl (Some \<lparr>MiBAllowed = 50000000, MiBUsed = 0\<rparr>) \<noteq> None"
    by (simp add: quota_signal_def)
qed

end
